theory Spec2Isabelle
  imports Complex_Main
begin

section \<open>Rate limiters: leaky bucket and token bucket\<close>

text \<open>
  A shallow embedding of \<^verbatim>\<open>Rate-Limiter/leaking_bucket.cpp\<close> and
  \<^verbatim>\<open>Rate-Limiter/token_bucket.cpp\<close>.

  Each C++ class is a record of its data members; a member function takes the object
  and returns its result together with the updated object. How the C++ types are read:
  \<^item> \<^verbatim>\<open>int\<close>, \<^verbatim>\<open>long\<close> and \<^verbatim>\<open>int64_t\<close> values are
    integers (\<open>int\<close>). The one narrowing store of the source,
    \<^verbatim>\<open>lastRefillTime = now\<close> (a \<^verbatim>\<open>long\<close> into an
    \<^verbatim>\<open>int\<close>), wraps modulo \<open>2 ^ 32\<close> and is written out as
    \<open>to_int32\<close>. Signed overflow of a subtraction or a product is undefined in C++
    and is outside the model: the model computes the exact integer.
  \<^item> \<^verbatim>\<open>double\<close> values are real numbers: the model does not round. In the
    token bucket every value of \<^verbatim>\<open>tokens\<close> and \<^verbatim>\<open>earned\<close> is a
    whole number, which a \<^verbatim>\<open>double\<close> holds exactly below \<open>2 ^ 53\<close>.
  \<^item> \<^verbatim>\<open>int / int\<close> truncates towards zero (\<open>cpp_div\<close>).
  \<^item> \<^verbatim>\<open>TokenBucket::isAllowable\<close> reads \<^verbatim>\<open>steady_clock\<close> itself;
    in the model the value it read (whole seconds) is the argument \<open>now\<close>. That clock
    is monotonic and counts whole seconds from a start in the past, so the values that
    the calls on one object read are not negative and never decrease: for the values
    \<open>ns\<close> of a sequence of calls, \<open>sorted (0 # ns)\<close>. They fit the
    \<^verbatim>\<open>int\<close> member that stores them while they stay below \<open>2 ^ 31\<close>.
\<close>

subsection \<open>C++ arithmetic\<close>

definition cpp_div :: "int \<Rightarrow> int \<Rightarrow> int" where
  "cpp_div a b = (if (a < 0) = (b < 0) then \<bar>a\<bar> div \<bar>b\<bar> else - (\<bar>a\<bar> div \<bar>b\<bar>))"

definition to_int32 :: "int \<Rightarrow> int" where
  "to_int32 x = (x + 2147483648) mod 4294967296 - 2147483648"

subsection \<open>LeakyBucket\<close>

record LeakyBucket =
  capacity :: int
  leakRate :: int
  bucket :: real
  last_ts :: int

text \<open>The constructor: an empty bucket, and \<open>-1\<close> for "no timestamp yet".\<close>

definition LeakyBucket :: "int \<Rightarrow> int \<Rightarrow> LeakyBucket" where
  "LeakyBucket c r = \<lparr>LeakyBucket.capacity = c, leakRate = r, bucket = 0, last_ts = - 1\<rparr>"

text \<open>The locals \<^verbatim>\<open>delta_ms\<close> (after the clamp) and \<^verbatim>\<open>drain\<close> of \<^verbatim>\<open>allow\<close>.\<close>

definition delta_ms :: "LeakyBucket \<Rightarrow> int \<Rightarrow> int" where
  "delta_ms s ts_ms = (let d = ts_ms - last_ts s in if d < 0 then 0 else d)"

definition drain :: "LeakyBucket \<Rightarrow> int \<Rightarrow> real" where
  "drain s ts_ms = of_int (delta_ms s ts_ms) * (of_int (leakRate s) / 1000)"

definition allow :: "LeakyBucket \<Rightarrow> int \<Rightarrow> bool \<times> LeakyBucket" where
  "allow s ts_ms =
     (if last_ts s = - 1 then
        (let s1 = s\<lparr>last_ts := ts_ms\<rparr> in
         if bucket s1 + 1 \<le> of_int (LeakyBucket.capacity s1)
         then (True, s1\<lparr>bucket := bucket s1 + 1\<rparr>)
         else (False, s1))
      else
        (let s1 = s\<lparr>bucket := max 0 (bucket s - drain s ts_ms)\<rparr>;
             s2 = s1\<lparr>last_ts := ts_ms\<rparr> in
         if bucket s2 + 1 \<le> of_int (LeakyBucket.capacity s2)
         then (True, s2\<lparr>bucket := bucket s2 + 1\<rparr>)
         else (False, s2)))"

text \<open>A sequence of calls on one object: the answers in order, and the object at the end.\<close>

fun allow_seq :: "LeakyBucket \<Rightarrow> int list \<Rightarrow> bool list \<times> LeakyBucket" where
  "allow_seq s [] = ([], s)"
| "allow_seq s (t # ts) =
     (case allow s t of (r, s') \<Rightarrow>
        (case allow_seq s' ts of (rs, s'') \<Rightarrow> (r # rs, s'')))"

subsection \<open>TokenBucket\<close>

record TokenBucket =
  capacity :: int
  tokens :: real
  refillRate :: int
  lastRefillTime :: int

text \<open>The constructor: a full bucket, refilled "at time 0".\<close>

definition TokenBucket :: "int \<Rightarrow> int \<Rightarrow> TokenBucket" where
  "TokenBucket c r =
     \<lparr>TokenBucket.capacity = c, tokens = of_int c, refillRate = r, lastRefillTime = 0\<rparr>"

text \<open>The locals \<^verbatim>\<open>timePassed\<close> and \<^verbatim>\<open>earned\<close> of \<^verbatim>\<open>isAllowable\<close>.\<close>

definition timePassed :: "TokenBucket \<Rightarrow> int \<Rightarrow> int" where
  "timePassed s now = now - lastRefillTime s"

definition earned :: "TokenBucket \<Rightarrow> int \<Rightarrow> real" where
  "earned s now = of_int (timePassed s now * cpp_div (refillRate s) 60)"

definition isAllowable :: "TokenBucket \<Rightarrow> int \<Rightarrow> bool \<times> TokenBucket" where
  "isAllowable s now =
     (let s1 = s\<lparr>tokens := min (of_int (TokenBucket.capacity s)) (tokens s + earned s now)\<rparr> in
      if tokens s1 \<ge> 1
      then (True, s1\<lparr>tokens := tokens s1 - 1, lastRefillTime := to_int32 now\<rparr>)
      else (False, s1))"

fun isAllowable_seq :: "TokenBucket \<Rightarrow> int list \<Rightarrow> bool list \<times> TokenBucket" where
  "isAllowable_seq s [] = ([], s)"
| "isAllowable_seq s (t # ts) =
     (case isAllowable s t of (r, s') \<Rightarrow>
        (case isAllowable_seq s' ts of (rs, s'') \<Rightarrow> (r # rs, s'')))"

section \<open>Basic facts\<close>

lemma allow_seq_Cons_fst:
  "fst (allow_seq s (t # ts)) = fst (allow s t) # fst (allow_seq (snd (allow s t)) ts)"
  by (simp add: split_beta)

lemma allow_seq_Cons_snd:
  "snd (allow_seq s (t # ts)) = snd (allow_seq (snd (allow s t)) ts)"
  by (simp add: split_beta)

lemma isAllowable_seq_Cons_fst:
  "fst (isAllowable_seq s (t # ts)) =
     fst (isAllowable s t) # fst (isAllowable_seq (snd (isAllowable s t)) ts)"
  by (simp add: split_beta)

lemma isAllowable_seq_Cons_snd:
  "snd (isAllowable_seq s (t # ts)) = snd (isAllowable_seq (snd (isAllowable s t)) ts)"
  by (simp add: split_beta)

subsection \<open>Arithmetic of the two conversions\<close>

lemma cpp_div_60_nonneg: "0 \<le> r \<Longrightarrow> 0 \<le> cpp_div r 60"
  by (simp add: cpp_div_def)

lemma cpp_div_60_small: "- 60 < r \<Longrightarrow> r < 60 \<Longrightarrow> cpp_div r 60 = 0"
  by (simp add: cpp_div_def)


lemma to_int32_id: "- 2147483648 \<le> x \<Longrightarrow> x < 2147483648 \<Longrightarrow> to_int32 x = x"
  by (simp add: to_int32_def)

lemma to_int32_le: "0 \<le> x \<Longrightarrow> to_int32 x \<le> x"
proof -
  assume "0 \<le> x"
  then have "(x + 2147483648) mod 4294967296 \<le> x + 2147483648"
    by (intro zmod_le_nonneg_dividend) simp
  then show ?thesis by (simp add: to_int32_def)
qed

subsection \<open>One call and a sequence of calls: LeakyBucket\<close>

lemma delta_ms_nonneg: "0 \<le> delta_ms s t"
  by (simp add: delta_ms_def Let_def)

lemma drain_nonneg: "0 \<le> leakRate s \<Longrightarrow> 0 \<le> drain s t"
  by (simp add: drain_def delta_ms_nonneg)

lemma allow_last_ts: "last_ts (snd (allow s t)) = t"
  by (simp add: allow_def Let_def)

lemma allow_capacity: "LeakyBucket.capacity (snd (allow s t)) = LeakyBucket.capacity s"
  by (simp add: allow_def Let_def)

lemma allow_leakRate: "leakRate (snd (allow s t)) = leakRate s"
  by (simp add: allow_def Let_def)

lemma allow_bucket_nonneg: "0 \<le> bucket s \<Longrightarrow> 0 \<le> bucket (snd (allow s t))"
  by (simp add: allow_def Let_def)

lemma allow_bucket_le:
  "0 \<le> LeakyBucket.capacity s \<Longrightarrow> 0 \<le> leakRate s \<Longrightarrow> bucket s \<le> of_int (LeakyBucket.capacity s)
    \<Longrightarrow> bucket (snd (allow s t)) \<le> of_int (LeakyBucket.capacity s)"
  using drain_nonneg [of s t] by (simp add: allow_def Let_def)

lemma allow_seq_capacity: "LeakyBucket.capacity (snd (allow_seq s ts)) = LeakyBucket.capacity s"
  by (induction ts arbitrary: s) (simp_all add: allow_seq_Cons_snd allow_capacity del: allow_seq.simps(2))

lemma allow_seq_bucket_nonneg: "0 \<le> bucket s \<Longrightarrow> 0 \<le> bucket (snd (allow_seq s ts))"
  by (induction ts arbitrary: s) (simp_all add: allow_seq_Cons_snd allow_bucket_nonneg del: allow_seq.simps(2))

lemma allow_seq_bucket_le:
  "0 \<le> LeakyBucket.capacity s \<Longrightarrow> 0 \<le> leakRate s \<Longrightarrow> bucket s \<le> of_int (LeakyBucket.capacity s)
    \<Longrightarrow> bucket (snd (allow_seq s ts)) \<le> of_int (LeakyBucket.capacity s)"
proof (induction ts arbitrary: s)
  case Nil
  then show ?case by simp
next
  case (Cons t ts)
  have "bucket (snd (allow_seq (snd (allow s t)) ts)) \<le> of_int (LeakyBucket.capacity (snd (allow s t)))"
    using Cons.prems by (intro Cons.IH) (simp_all add: allow_capacity allow_leakRate allow_bucket_le)
  then show ?case by (simp add: allow_seq_Cons_snd allow_capacity del: allow_seq.simps(2))
qed

text \<open>
  No draining happens on the first-call path, nor when the timestamp is not later than
  the stored one; then a call only tries to add its unit.
\<close>

lemma drain_backward: "t \<le> last_ts s \<Longrightarrow> drain s t = 0"
  by (simp add: drain_def delta_ms_def Let_def)

lemma allow_no_drain:
  assumes "last_ts s = - 1 \<or> t \<le> last_ts s" and "0 \<le> bucket s"
  shows "allow s t =
    (if bucket s + 1 \<le> of_int (LeakyBucket.capacity s)
     then (True, s\<lparr>bucket := bucket s + 1, last_ts := t\<rparr>)
     else (False, s\<lparr>last_ts := t\<rparr>))"
proof (cases "last_ts s = - 1")
  case True
  then show ?thesis by (simp add: allow_def Let_def)
next
  case False
  with assms have "drain s t = 0" by (simp add: drain_backward)
  with False assms(2) show ?thesis by (simp add: allow_def Let_def)
qed

lemma allow_seq_same_ts:
  assumes "bucket s = of_int b" and "0 \<le> b" and "last_ts s = - 1 \<or> last_ts s = t"
  shows "fst (allow_seq s (replicate n t)) =
    replicate (min n (nat (LeakyBucket.capacity s - b))) True @ replicate (n - nat (LeakyBucket.capacity s - b)) False"
  using assms
proof (induction n arbitrary: s b)
  case 0
  then show ?case by simp
next
  case (Suc n)
  let ?c = "LeakyBucket.capacity s"
  have step: "allow s t =
    (if bucket s + 1 \<le> of_int ?c then (True, s\<lparr>bucket := bucket s + 1, last_ts := t\<rparr>)
     else (False, s\<lparr>last_ts := t\<rparr>))"
    using Suc.prems by (intro allow_no_drain) auto
  show ?case
  proof (cases "b + 1 \<le> ?c")
    case True
    then have adm: "allow s t = (True, s\<lparr>bucket := of_int (b + 1), last_ts := t\<rparr>)"
      using step Suc.prems(1) by simp
    have "fst (allow_seq (s\<lparr>bucket := of_int (b + 1), last_ts := t\<rparr>) (replicate n t)) =
      replicate (min n (nat (?c - (b + 1)))) True @ replicate (n - nat (?c - (b + 1))) False"
      using Suc.IH [of "s\<lparr>bucket := of_int (b + 1), last_ts := t\<rparr>" "b + 1"] Suc.prems(2) by simp
    moreover have "nat (?c - b) = Suc (nat (?c - (b + 1)))"
      using True by simp
    ultimately show ?thesis
      by (simp add: allow_seq_Cons_fst adm del: allow_seq.simps(2))
  next
    case False
    then have "\<not> bucket s + 1 \<le> of_int ?c"
      using Suc.prems(1) by (metis of_int_1 of_int_add of_int_le_iff)
    then have den: "allow s t = (False, s\<lparr>last_ts := t\<rparr>)"
      using step by simp
    have "fst (allow_seq (s\<lparr>last_ts := t\<rparr>) (replicate n t)) =
      replicate (min n (nat (?c - b))) True @ replicate (n - nat (?c - b)) False"
      using Suc.IH [of "s\<lparr>last_ts := t\<rparr>" b] Suc.prems by simp
    moreover have "nat (?c - b) = 0"
      using False by simp
    ultimately show ?thesis
      by (simp add: allow_seq_Cons_fst den del: allow_seq.simps(2))
  qed
qed



text \<open>
  With a capacity of zero or less nothing is ever admitted.
\<close>

lemma allow_deny_nonpos:
  "LeakyBucket.capacity s \<le> 0 \<Longrightarrow> 0 \<le> bucket s \<Longrightarrow> \<not> fst (allow s t)"
proof -
  assume c: "LeakyBucket.capacity s \<le> 0" and b: "0 \<le> bucket s"
  from c have "real_of_int (LeakyBucket.capacity s) \<le> 0" by simp
  moreover have "0 \<le> max 0 (bucket s - drain s t)" by simp
  ultimately show ?thesis using b by (auto simp: allow_def Let_def)
qed

lemma allow_seq_deny_nonpos:
  "LeakyBucket.capacity s \<le> 0 \<Longrightarrow> 0 \<le> bucket s
    \<Longrightarrow> fst (allow_seq s ts) = replicate (length ts) False"
proof (induction ts arbitrary: s)
  case Nil
  then show ?case by simp
next
  case (Cons t ts)
  have "fst (allow_seq (snd (allow s t)) ts) = replicate (length ts) False"
    using Cons.prems by (intro Cons.IH) (simp_all add: allow_capacity allow_bucket_nonneg)
  then show ?case
    using Cons.prems by (simp add: allow_seq_Cons_fst allow_deny_nonpos del: allow_seq.simps(2))
qed

subsection \<open>One call and a sequence of calls: TokenBucket\<close>

lemma isAllowable_capacity: "TokenBucket.capacity (snd (isAllowable s n)) = TokenBucket.capacity s"
  by (simp add: isAllowable_def Let_def)

lemma isAllowable_refillRate: "refillRate (snd (isAllowable s n)) = refillRate s"
  by (simp add: isAllowable_def Let_def)

lemma isAllowable_tokens_le: "tokens (snd (isAllowable s n)) \<le> of_int (TokenBucket.capacity s)"
  by (auto simp: isAllowable_def Let_def min_def)

lemma isAllowable_tokens_nonneg:
  "0 \<le> tokens s \<Longrightarrow> 0 \<le> earned s n \<Longrightarrow> 0 \<le> TokenBucket.capacity s \<Longrightarrow> 0 \<le> tokens (snd (isAllowable s n))"
  by (simp add: isAllowable_def Let_def)

lemma earned_nonneg: "lastRefillTime s \<le> n \<Longrightarrow> 0 \<le> refillRate s \<Longrightarrow> 0 \<le> earned s n"
  by (simp add: earned_def timePassed_def cpp_div_60_nonneg)

lemma isAllowable_lastRefillTime:
  "lastRefillTime (snd (isAllowable s n)) = (if fst (isAllowable s n) then to_int32 n else lastRefillTime s)"
  by (simp add: isAllowable_def Let_def)

lemma isAllowable_seq_capacity: "TokenBucket.capacity (snd (isAllowable_seq s ns)) = TokenBucket.capacity s"
  by (induction ns arbitrary: s) (simp_all add: isAllowable_seq_Cons_snd isAllowable_capacity del: isAllowable_seq.simps(2))

lemma isAllowable_seq_tokens_le:
  "tokens s \<le> of_int (TokenBucket.capacity s) \<Longrightarrow> tokens (snd (isAllowable_seq s ns)) \<le> of_int (TokenBucket.capacity s)"
proof (induction ns arbitrary: s)
  case Nil
  then show ?case by simp
next
  case (Cons n ns)
  have "tokens (snd (isAllowable_seq (snd (isAllowable s n)) ns)) \<le> of_int (TokenBucket.capacity (snd (isAllowable s n)))"
    by (intro Cons.IH) (simp add: isAllowable_capacity isAllowable_tokens_le)
  then show ?case by (simp add: isAllowable_seq_Cons_snd isAllowable_capacity del: isAllowable_seq.simps(2))
qed

lemma isAllowable_seq_tokens_nonneg:
  "0 \<le> tokens s \<Longrightarrow> lastRefillTime s \<le> lo \<Longrightarrow> 0 \<le> lo \<Longrightarrow> sorted (lo # ns)
    \<Longrightarrow> 0 \<le> TokenBucket.capacity s \<Longrightarrow> 0 \<le> refillRate s
    \<Longrightarrow> 0 \<le> tokens (snd (isAllowable_seq s ns))"
proof (induction ns arbitrary: s lo)
  case Nil
  then show ?case by simp
next
  case (Cons n ns)
  from Cons.prems have lo_n: "lo \<le> n" and n0: "0 \<le> n" and srt: "sorted (n # ns)"
    by auto
  let ?s' = "snd (isAllowable s n)"
  have e: "0 \<le> earned s n"
    using Cons.prems lo_n by (intro earned_nonneg) auto
  have t: "0 \<le> tokens ?s'"
    using Cons.prems e by (intro isAllowable_tokens_nonneg) auto
  have l: "lastRefillTime ?s' \<le> n"
    using to_int32_le [OF n0] Cons.prems(2) lo_n by (simp add: isAllowable_lastRefillTime)
  have "0 \<le> tokens (snd (isAllowable_seq ?s' ns))"
    using t l n0 srt Cons.prems by (intro Cons.IH [of ?s' n]) (simp_all add: isAllowable_capacity isAllowable_refillRate)
  then show ?case by (simp add: isAllowable_seq_Cons_snd del: isAllowable_seq.simps(2))
qed

lemma earned_small_rate: "- 60 < refillRate s \<Longrightarrow> refillRate s < 60 \<Longrightarrow> earned s now = 0"
  by (simp add: earned_def cpp_div_60_small)



lemma earned_same_time: "lastRefillTime s = t \<Longrightarrow> earned s t = 0"
  by (simp add: earned_def timePassed_def)

lemma isAllowable_seq_same_time:
  assumes "tokens s = of_int b" and "b \<le> TokenBucket.capacity s" and "lastRefillTime s = t"
    and "to_int32 t = t"
  shows "fst (isAllowable_seq s (replicate n t)) =
    replicate (min n (nat b)) True @ replicate (n - nat b) False"
  using assms
proof (induction n arbitrary: s b)
  case 0
  then show ?case by simp
next
  case (Suc n)
  have e: "earned s t = 0"
    using Suc.prems(3) by (rule earned_same_time)
  have m: "min (real_of_int (TokenBucket.capacity s)) (real_of_int b) = of_int b"
    using Suc.prems(2) by simp
  show ?case
  proof (cases "1 \<le> b")
    case True
    then have adm: "isAllowable s t = (True, s\<lparr>tokens := of_int (b - 1), lastRefillTime := t\<rparr>)"
      using Suc.prems e m by (simp add: isAllowable_def Let_def)
    have "fst (isAllowable_seq (s\<lparr>tokens := of_int (b - 1), lastRefillTime := t\<rparr>) (replicate n t)) =
      replicate (min n (nat (b - 1))) True @ replicate (n - nat (b - 1)) False"
      using Suc.IH [of "s\<lparr>tokens := of_int (b - 1), lastRefillTime := t\<rparr>" "b - 1"] Suc.prems by simp
    moreover have "nat b = Suc (nat (b - 1))"
      using True by simp
    ultimately show ?thesis
      by (simp add: isAllowable_seq_Cons_fst adm del: isAllowable_seq.simps(2))
  next
    case False
    then have "\<not> 1 \<le> real_of_int b"
      by (metis of_int_1 of_int_le_iff) 
    then have den: "isAllowable s t = (False, s\<lparr>tokens := of_int b\<rparr>)"
      using Suc.prems e m by (simp add: isAllowable_def Let_def)
    have "fst (isAllowable_seq (s\<lparr>tokens := of_int b\<rparr>) (replicate n t)) =
      replicate (min n (nat b)) True @ replicate (n - nat b) False"
      using Suc.IH [of "s\<lparr>tokens := of_int b\<rparr>" b] Suc.prems by simp
    moreover have "nat b = 0"
      using False by simp
    ultimately show ?thesis
      by (simp add: isAllowable_seq_Cons_fst den del: isAllowable_seq.simps(2))
  qed
qed

lemma isAllowable_deny_nonpos:
  "TokenBucket.capacity s \<le> 0 \<Longrightarrow> \<not> fst (isAllowable s n)"
proof -
  assume "TokenBucket.capacity s \<le> 0"
  then have "real_of_int (TokenBucket.capacity s) \<le> 0" by simp
  then show ?thesis by (simp add: isAllowable_def Let_def)
qed

lemma isAllowable_seq_deny_nonpos:
  "TokenBucket.capacity s \<le> 0 \<Longrightarrow> fst (isAllowable_seq s ns) = replicate (length ns) False"
proof (induction ns arbitrary: s)
  case Nil
  then show ?case by simp
next
  case (Cons n ns)
  have "fst (isAllowable_seq (snd (isAllowable s n)) ns) = replicate (length ns) False"
    using Cons.prems by (intro Cons.IH) (simp add: isAllowable_capacity)
  then show ?case
    using Cons.prems by (simp add: isAllowable_seq_Cons_fst isAllowable_deny_nonpos del: isAllowable_seq.simps(2))
qed

text \<open>
  The first call on a fresh token bucket, in closed form: \<open>lastRefillTime\<close> starts at
  0, so the time passed is the clock value itself.
\<close>

lemma min_of_int_add: "min (real_of_int c) (real_of_int c + real_of_int e) = real_of_int (min c (c + e))"
  by (simp add: min_def)

lemma one_le_of_int_min: "(1 \<le> real_of_int (min c d)) = (1 \<le> c \<and> 1 \<le> d)"
  by (metis min.bounded_iff of_int_1 of_int_le_iff)

lemma isAllowable_fresh:
  "isAllowable (TokenBucket c r) now =
     (if 1 \<le> c \<and> 1 \<le> c + now * cpp_div r 60
      then (True, \<lparr>TokenBucket.capacity = c, tokens = of_int (min c (c + now * cpp_div r 60)) - 1,
                   refillRate = r, lastRefillTime = to_int32 now\<rparr>)
      else (False, \<lparr>TokenBucket.capacity = c, tokens = of_int (min c (c + now * cpp_div r 60)),
                   refillRate = r, lastRefillTime = 0\<rparr>))"
proof -
  have e: "earned (TokenBucket c r) now = real_of_int (now * cpp_div r 60)"
    by (simp add: earned_def timePassed_def TokenBucket_def)
  have t: "tokens (TokenBucket c r) = real_of_int c" "TokenBucket.capacity (TokenBucket c r) = c"
    by (simp_all add: TokenBucket_def)
  show ?thesis
    unfolding isAllowable_def Let_def e t min_of_int_add
    by (simp only: TokenBucket.simps one_le_of_int_min TokenBucket_def
          TokenBucket.update_convs split: if_splits)
qed

text \<open>
  A burst on a fresh token bucket: the first call refills nothing beyond the capacity,
  the calls after it read the stored clock value again and earn nothing.
\<close>

lemma isAllowable_seq_fresh_burst:
  assumes "1 \<le> c" and "- 2147483648 \<le> n" and "n < 2147483648" and "0 \<le> n * cpp_div r 60"
  shows "fst (isAllowable_seq (TokenBucket c r) (replicate (nat c + 1) n)) = replicate (nat c) True @ [False]"
proof -
  have id: "to_int32 n = n"
    using assms by (simp add: to_int32_id)
  let ?s = "\<lparr>TokenBucket.capacity = c, tokens = of_int (c - 1), refillRate = r, lastRefillTime = n\<rparr>"
  have "min c (c + n * cpp_div r 60) = c"
    using assms by simp
  then have first: "isAllowable (TokenBucket c r) n = (True, ?s)"
    using assms id by (simp add: isAllowable_fresh)
  have rest: "fst (isAllowable_seq ?s (replicate (nat c) n)) =
    replicate (min (nat c) (nat (c - 1))) True @ replicate (nat c - nat (c - 1)) False"
    by (rule isAllowable_seq_same_time) (simp_all add: id)
  have c: "nat c = Suc (nat (c - 1))"
    using assms by simp
  then have "fst (isAllowable_seq ?s (replicate (nat c) n)) = replicate (nat (c - 1)) True @ [False]"
    using rest by simp
  then show ?thesis
    using c by (simp add: isAllowable_seq_Cons_fst first del: isAllowable_seq.simps(2))
qed

section \<open>The claims\<close>

subsection \<open>C1: the earned tokens and the division by 60\<close>

text \<open>
  C1 says that the earned tokens are \<open>elapsed * (rate / 60)\<close> with a real-number
  division, so that a rate between 0 and 60 tokens per minute still earns tokens after a
  long enough time. The source divides two \<^verbatim>\<open>int\<close>s
  (\<^verbatim>\<open>refillRate/60\<close>), which truncates. What the code does instead:
  for every rate strictly between 0 and 60, and every state and clock value, nothing
  is earned.
\<close>

theorem C1_truncating_division:
  "0 < refillRate s \<and> refillRate s < 60 \<longrightarrow> earned s now = 0"
  by (simp add: earned_small_rate)

text \<open>
  At a rate of 30 per minute and capacity 1: the call at second 0 takes the only token,
  and one hour later the bucket has earned nothing and the call is denied.
\<close>

theorem C1_truncating_division_witness:
  "refillRate (snd (isAllowable (TokenBucket 1 30) 0)) = 30
   \<and> earned (snd (isAllowable (TokenBucket 1 30) 0)) 3600 = 0
   \<and> fst (isAllowable_seq (TokenBucket 1 30) [0, 3600]) = [True, False]"
proof -
  have r: "refillRate (snd (isAllowable (TokenBucket 1 30) 0)) = 30"
    by (simp add: isAllowable_refillRate TokenBucket_def)
  then have "earned (snd (isAllowable (TokenBucket 1 30) 0)) 3600 = 0"
    using C1_truncating_division [of "snd (isAllowable (TokenBucket 1 30) 0)" 3600] by simp
  moreover have "fst (isAllowable_seq (TokenBucket 1 30) [0, 3600]) = [True, False]"
    by (simp add: TokenBucket_def isAllowable_def earned_def timePassed_def cpp_div_def to_int32_def Let_def)
  ultimately show ?thesis using r by simp
qed

subsection \<open>C2: construction with a capacity or rate of zero or less\<close>

text \<open>
  C2, as amended. Neither constructor checks its arguments: for every capacity and
  rate it returns an object holding exactly these values, and with a capacity of zero or
  less that object denies every call of every sequence (both limiters).
\<close>

theorem C2_no_validation:
  "LeakyBucket.capacity (LeakyBucket c r) = c \<and> leakRate (LeakyBucket c r) = r
   \<and> TokenBucket.capacity (TokenBucket c r) = c \<and> refillRate (TokenBucket c r) = r
   \<and> (c \<le> 0 \<longrightarrow> fst (allow_seq (LeakyBucket c r) ts) = replicate (length ts) False
                \<and> fst (isAllowable_seq (TokenBucket c r) ns) = replicate (length ns) False)"
proof -
  have "fst (allow_seq (LeakyBucket c r) ts) = replicate (length ts) False" if "c \<le> 0"
    using that by (intro allow_seq_deny_nonpos) (simp_all add: LeakyBucket_def)
  moreover have "fst (isAllowable_seq (TokenBucket c r) ns) = replicate (length ns) False" if "c \<le> 0"
    using that by (intro isAllowable_seq_deny_nonpos) (simp add: TokenBucket_def)
  ultimately show ?thesis
    by (simp add: LeakyBucket_def TokenBucket_def)
qed

theorem C2_no_validation_witness:
  "fst (allow_seq (LeakyBucket (- 1) 5) [0, 1000, 60000]) = [False, False, False]
   \<and> fst (isAllowable_seq (TokenBucket (- 1) 120) [0, 60]) = [False, False]"
  using C2_no_validation [of "- 1" 5 "[0, 1000, 60000]" "[0, 60]"]
        C2_no_validation [of "- 1" 120 "[0, 1000, 60000]" "[0, 60]"] by simp

text \<open>
  C2 as written (construction fails for a capacity or rate of zero or less) does not
  hold: capacity 0 and rate 0 give an object that denies, and capacity 1 with rate 0 gives
  one that admits once and never again.
\<close>

theorem C2_constructed_with_zero:
  "LeakyBucket 0 0 = \<lparr>LeakyBucket.capacity = 0, leakRate = 0, bucket = 0, last_ts = - 1\<rparr>
   \<and> fst (allow_seq (LeakyBucket 0 0) [0, 1000]) = [False, False]
   \<and> fst (allow_seq (LeakyBucket 1 0) [0, 1000000]) = [True, False]
   \<and> TokenBucket 0 0 = \<lparr>TokenBucket.capacity = 0, tokens = 0, refillRate = 0, lastRefillTime = 0\<rparr>
   \<and> fst (isAllowable_seq (TokenBucket 0 0) [0, 60]) = [False, False]
   \<and> fst (isAllowable_seq (TokenBucket 1 0) [0, 3600]) = [True, False]"
  by (simp add: LeakyBucket_def allow_def drain_def delta_ms_def
      TokenBucket_def isAllowable_def earned_def timePassed_def cpp_div_def to_int32_def Let_def)

subsection \<open>C3: the level stays between 0 and the capacity\<close>

text \<open>
  C3. With capacity and rate at least 1, the level is between 0 and the capacity after
  every sequence of calls. For the leaky bucket this holds whatever timestamps the calls
  pass. For the token bucket the upper bound holds for any clock values, and the lower
  bound for the values its clock gives: not negative and never decreasing.
\<close>

theorem C3_level_bounds:
  assumes "1 \<le> c" and "1 \<le> r"
  shows "0 \<le> bucket (snd (allow_seq (LeakyBucket c r) ts))
       \<and> bucket (snd (allow_seq (LeakyBucket c r) ts)) \<le> of_int c
       \<and> tokens (snd (isAllowable_seq (TokenBucket c r) ns)) \<le> of_int c
       \<and> (sorted (0 # ns) \<longrightarrow> 0 \<le> tokens (snd (isAllowable_seq (TokenBucket c r) ns)))"
proof -
  have a: "0 \<le> bucket (snd (allow_seq (LeakyBucket c r) ts))"
    by (intro allow_seq_bucket_nonneg) (simp add: LeakyBucket_def)
  have b: "bucket (snd (allow_seq (LeakyBucket c r) ts)) \<le> of_int (LeakyBucket.capacity (LeakyBucket c r))"
    using assms by (intro allow_seq_bucket_le) (simp_all add: LeakyBucket_def)
  have t: "tokens (snd (isAllowable_seq (TokenBucket c r) ns)) \<le> of_int (TokenBucket.capacity (TokenBucket c r))"
    by (intro isAllowable_seq_tokens_le) (simp add: TokenBucket_def)
  have u: "0 \<le> tokens (snd (isAllowable_seq (TokenBucket c r) ns))" if "sorted (0 # ns)"
    using assms that by (intro isAllowable_seq_tokens_nonneg [of _ 0]) (simp_all add: TokenBucket_def)
  from a b t u show ?thesis
    by (simp add: LeakyBucket_def TokenBucket_def)
qed

theorem C3_level_bounds_witness:
  "sorted [0, 3, 3, 3, 4 :: int]
   \<and> 0 \<le> bucket (snd (allow_seq (LeakyBucket 2 1) [0, 0, 500]))
   \<and> bucket (snd (allow_seq (LeakyBucket 2 1) [0, 0, 500])) \<le> 2
   \<and> tokens (snd (isAllowable_seq (TokenBucket 2 60) [3, 3, 3, 4])) \<le> 2
   \<and> 0 \<le> tokens (snd (isAllowable_seq (TokenBucket 2 60) [3, 3, 3, 4]))"
  using C3_level_bounds [of 2 1 "[0, 0, 500]" "[3, 3, 3, 4]"]
        C3_level_bounds [of 2 60 "[0, 0, 500]" "[3, 3, 3, 4]"] by simp

subsection \<open>C4: a negative elapsed time\<close>




subsection \<open>C5: when the stored timestamp moves\<close>

text \<open>
  C5. Every call of \<open>allow\<close> stores the timestamp it was given, admitted or not. A
  call of \<open>isAllowable\<close> stores the clock value (narrowed to \<^verbatim>\<open>int\<close>) when
  it admits and leaves \<open>lastRefillTime\<close> as it was when it denies; for a clock value in
  the range of \<^verbatim>\<open>int\<close> the stored value is the clock value.
\<close>

theorem C5_last_update:
  "last_ts (snd (allow s ts_ms)) = ts_ms
   \<and> lastRefillTime (snd (isAllowable b now)) =
       (if fst (isAllowable b now) then to_int32 now else lastRefillTime b)
   \<and> (fst (isAllowable b now) \<and> - 2147483648 \<le> now \<and> now < 2147483648 \<longrightarrow>
        lastRefillTime (snd (isAllowable b now)) = now)"
  by (simp add: allow_last_ts isAllowable_lastRefillTime to_int32_id)

theorem C5_last_update_witness:
  "last_ts (snd (allow (LeakyBucket 1 1) 7)) = 7
   \<and> fst (isAllowable (TokenBucket 1 60) 5)
   \<and> lastRefillTime (snd (isAllowable (TokenBucket 1 60) 5)) = 5"
proof -
  have f: "fst (isAllowable (TokenBucket 1 60) 5)"
    by (simp add: TokenBucket_def isAllowable_def earned_def timePassed_def cpp_div_def Let_def)
  then show ?thesis
    using C5_last_update [of "LeakyBucket 1 1" 7 "TokenBucket 1 60" 5] by simp
qed

subsection \<open>C6: the scenario of the leaky bucket\<close>

text \<open>
  C6. A fresh leaky bucket of capacity 2 that leaks 1 per second answers the calls at
  0, 0, 0, 1000 and 1000 milliseconds with true, true, false, true, false.
\<close>

theorem C6_scenario:
  "fst (allow_seq (LeakyBucket 2 1) [0, 0, 0, 1000, 1000]) = [True, True, False, True, False]"
  by (simp add: LeakyBucket_def allow_def drain_def delta_ms_def Let_def)

subsection \<open>C7: a burst at one timestamp\<close>

text \<open>
  C7. For every capacity \<open>c\<close> of at least 1: on a fresh leaky bucket, \<open>c\<close> calls at
  one timestamp \<open>t\<close> (any \<open>t\<close>, any leak rate) are admitted and the next call at
  \<open>t\<close> is denied. On a fresh token bucket with a rate of at least 0, \<open>c\<close> calls that
  all read one clock value \<open>n\<close> are admitted and the next call reading \<open>n\<close> is
  denied, for every value the clock gives and the \<^verbatim>\<open>int\<close> member holds
  (\<open>0 \<le> n < 2 ^ 31\<close>); more generally, for every \<open>n\<close> in the range of
  \<^verbatim>\<open>int\<close> with \<open>n * (rate / 60)\<close> not negative.
\<close>

theorem C7_burst:
  assumes "1 \<le> c"
  shows "fst (allow_seq (LeakyBucket c r) (replicate (nat c + 1) t)) = replicate (nat c) True @ [False]
    \<and> (0 \<le> n \<and> n < 2147483648 \<and> 0 \<le> r' \<longrightarrow>
        fst (isAllowable_seq (TokenBucket c r') (replicate (nat c + 1) n)) = replicate (nat c) True @ [False])
    \<and> (- 2147483648 \<le> m \<and> m < 2147483648 \<and> 0 \<le> m * cpp_div r' 60 \<longrightarrow>
        fst (isAllowable_seq (TokenBucket c r') (replicate (nat c + 1) m)) = replicate (nat c) True @ [False])"
proof (intro conjI impI)
  have "fst (allow_seq (LeakyBucket c r) (replicate (nat c + 1) t)) =
    replicate (min (nat c + 1) (nat (LeakyBucket.capacity (LeakyBucket c r) - 0))) True
      @ replicate (nat c + 1 - nat (LeakyBucket.capacity (LeakyBucket c r) - 0)) False"
    by (rule allow_seq_same_ts) (simp_all add: LeakyBucket_def)
  then show "fst (allow_seq (LeakyBucket c r) (replicate (nat c + 1) t)) = replicate (nat c) True @ [False]"
    by (simp add: LeakyBucket_def)
next
  assume h: "0 \<le> n \<and> n < 2147483648 \<and> 0 \<le> r'"
  then have "0 \<le> n * cpp_div r' 60"
    by (simp add: cpp_div_60_nonneg)
  with assms h
  show "fst (isAllowable_seq (TokenBucket c r') (replicate (nat c + 1) n)) = replicate (nat c) True @ [False]"
    by (intro isAllowable_seq_fresh_burst) simp_all
next
  assume "- 2147483648 \<le> m \<and> m < 2147483648 \<and> 0 \<le> m * cpp_div r' 60"
  with assms
  show "fst (isAllowable_seq (TokenBucket c r') (replicate (nat c + 1) m)) = replicate (nat c) True @ [False]"
    by (intro isAllowable_seq_fresh_burst) simp_all
qed

theorem C7_burst_witness:
  "fst (allow_seq (LeakyBucket 2 1) [5, 5, 5]) = [True, True, False]
   \<and> fst (isAllowable_seq (TokenBucket 2 60) [7, 7, 7]) = [True, True, False]"
proof -
  have "replicate (nat 2 + 1) (5::int) = [5, 5, 5]" "replicate (nat 2 + 1) (7::int) = [7, 7, 7]"
       "replicate (nat 2) True @ [False] = [True, True, False]"
    by (simp_all add: numeral_2_eq_2 numeral_3_eq_3)
  then show ?thesis
    using C7_burst [of 2 1 5 7 60 7] by (simp add: cpp_div_def)
qed

subsection \<open>C8: the first call on a fresh token bucket\<close>

text \<open>
  C8. A fresh token bucket holds as many tokens as its capacity, and so, with a
  capacity \<open>c\<close> of at least 1 and a rate of at least 0, its first call is admitted
  whatever value \<open>now\<close> the clock gives (\<open>0 \<le> now\<close>). In full: the first call adds
  \<open>now * (rate / 60)\<close> before it tests, \<open>lastRefillTime\<close> starting at 0, and is
  admitted exactly when \<open>c + now * (rate / 60)\<close> is at least 1.
\<close>

theorem C8_first_check:
  "tokens (TokenBucket c r) = of_int c
   \<and> (1 \<le> c \<longrightarrow> fst (isAllowable (TokenBucket c r) now) = (1 \<le> c + now * cpp_div r 60))
   \<and> (1 \<le> c \<and> 0 \<le> r \<and> 0 \<le> now \<longrightarrow> fst (isAllowable (TokenBucket c r) now))"
proof (intro conjI impI)
  show "tokens (TokenBucket c r) = of_int c" by (simp add: TokenBucket_def)
next
  assume "1 \<le> c"
  then show "fst (isAllowable (TokenBucket c r) now) = (1 \<le> c + now * cpp_div r 60)"
    by (simp add: isAllowable_fresh)
next
  assume h: "1 \<le> c \<and> 0 \<le> r \<and> 0 \<le> now"
  then have "0 \<le> now * cpp_div r 60" by (simp add: cpp_div_60_nonneg)
  with h have "1 \<le> c + now * cpp_div r 60" by simp
  with h show "fst (isAllowable (TokenBucket c r) now)" by (simp add: isAllowable_fresh)
qed

theorem C8_first_check_witness:
  "tokens (TokenBucket 3 60) = 3 \<and> fst (isAllowable (TokenBucket 3 60) 12)"
  using C8_first_check [of 3 60 12] by (simp add: cpp_div_def)

subsection \<open>C9: the wait after the bucket is empty\<close>

text \<open>
  C9 says that once the tokens are used up, a call made \<open>60 / R\<close> seconds or more
  after the last admitted one succeeds. At 30 tokens per minute that is 2 seconds; the
  code, which truncates \<open>30 / 60\<close> to 0, denies the call after 2 seconds, after 2
  minutes and after a day.
\<close>

theorem C9_rate_30_never_refills:
  "fst (isAllowable_seq (TokenBucket 1 30) [0, 2, 120, 86400]) = [True, False, False, False]"
  by (simp add: TokenBucket_def isAllowable_def earned_def timePassed_def cpp_div_def to_int32_def Let_def)

subsection \<open>C10: the timestamp -1\<close>




end
